theory Spec2Isabelle
  imports Main "HOL-Library.Char_ord"
begin

section \<open>Rectangles\<close>

text \<open>
  The candidate boxes are \<^verbatim>\<open>cv::Rect\<close> values (\<^verbatim>\<open>typedef std::vector<cv::Rect> BoxesGroups\<close>
  in \<^verbatim>\<open>recognizer.h\<close>): integer top-left corner, integer width and height. C++ \<^verbatim>\<open>int\<close>
  arithmetic is modelled on mathematical integers: signed overflow is undefined behaviour in
  C++, so the model covers the executions in which no coordinate sum or area overflows.
\<close>

record point =
  pt_x :: int
  pt_y :: int

record rect =
  rect_x :: int
  rect_y :: int
  rect_width :: int
  rect_height :: int

text \<open>
  Modelled from the spec: \<^verbatim>\<open>cv::Rect\<close> and its members \<^verbatim>\<open>tl\<close>, \<^verbatim>\<open>br\<close>, \<^verbatim>\<open>contains\<close>,
  \<^verbatim>\<open>area\<close> and \<^verbatim>\<open>operator&\<close> are OpenCV's, not part of the repository's sources. The
  spec (data model and glossary) gives a rectangle a top-left corner, width and height, the
  derived area width times height, containment of a rectangle as both of its corners
  lying within the other's bounds, and an intersection whose area can be computed. The
  definitions below follow these words with OpenCV's conventions: the bottom-right corner
  is \<open>(x + width, y + height)\<close>, the bounds of \<^verbatim>\<open>contains\<close> are half-open, and an
  intersection that is empty in one dimension is the all-zero rectangle.
\<close>

definition Rect :: "int \<Rightarrow> int \<Rightarrow> int \<Rightarrow> int \<Rightarrow> rect" where
  "Rect x y w h = \<lparr>rect_x = x, rect_y = y, rect_width = w, rect_height = h\<rparr>"

definition rect_tl :: "rect \<Rightarrow> point" where
  "rect_tl r = \<lparr>pt_x = rect_x r, pt_y = rect_y r\<rparr>"

definition rect_br :: "rect \<Rightarrow> point" where
  "rect_br r = \<lparr>pt_x = rect_x r + rect_width r, pt_y = rect_y r + rect_height r\<rparr>"

definition contains :: "rect \<Rightarrow> point \<Rightarrow> bool" where
  "contains r pt \<longleftrightarrow>
     rect_x r \<le> pt_x pt \<and> pt_x pt < rect_x r + rect_width r \<and>
     rect_y r \<le> pt_y pt \<and> pt_y pt < rect_y r + rect_height r"

definition area :: "rect \<Rightarrow> int" where
  "area r = rect_width r * rect_height r"

definition intersect :: "rect \<Rightarrow> rect \<Rightarrow> rect" where
  "intersect a b =
     (let x1 = max (rect_x a) (rect_x b);
          y1 = max (rect_y a) (rect_y b);
          w = min (rect_x a + rect_width a) (rect_x b + rect_width b) - x1;
          h = min (rect_y a + rect_height a) (rect_y b + rect_height b) - y1
      in if w \<le> 0 \<or> h \<le> 0
         then \<lparr>rect_x = 0, rect_y = 0, rect_width = 0, rect_height = 0\<rparr>
         else \<lparr>rect_x = x1, rect_y = y1, rect_width = w, rect_height = h\<rparr>)"

section \<open>The rectangle deduplicator\<close>

text \<open>
  \<^verbatim>\<open>boxes.erase(it)\<close> on a \<^verbatim>\<open>std::vector\<close>: the element at the iterator's index is
  removed, the later elements move down by one, and the iterator returned stands at the
  same index (on the element that followed the erased one, or at the end). Iterators are
  modelled as indices, \<^verbatim>\<open>boxes.end()\<close> as \<open>length boxes\<close>. Both passes erase only at
  an index inside the vector (the outer index is below the inner one, which is below the
  length); at an index past the end the model leaves the list as it is.
\<close>

definition erase :: "'a list \<Rightarrow> nat \<Rightarrow> 'a list" where
  "erase xs i = take i xs @ drop (Suc i) xs"

text \<open>
  The first pass of \<^verbatim>\<open>remove_dup\<close> (containment). The inner loop: an \<open>inner\<close> box whose
  two corners the \<open>outer\<close> box contains is erased and the scan continues at the same
  index; when the \<open>inner\<close> box contains both corners of the \<open>outer\<close> one, the outer box is
  erased (\<^verbatim>\<open>outer = boxes.erase(outer)\<close> leaves the iterator at the same index) and the
  inner loop is left by \<^verbatim>\<open>break\<close>.
\<close>

function contain_inner :: "rect list \<Rightarrow> nat \<Rightarrow> nat \<Rightarrow> rect list" where
  "contain_inner boxes outer inner =
     (if inner < length boxes then
        if contains (boxes ! outer) (rect_tl (boxes ! inner)) \<and>
           contains (boxes ! outer) (rect_br (boxes ! inner))
        then contain_inner (erase boxes inner) outer inner
        else if contains (boxes ! inner) (rect_tl (boxes ! outer)) \<and>
                contains (boxes ! inner) (rect_br (boxes ! outer))
        then erase boxes outer
        else contain_inner boxes outer (Suc inner)
      else boxes)"
  by pat_completeness auto
termination
  by (relation "measures [\<lambda>(boxes, outer, inner). length boxes,
                          \<lambda>(boxes, outer, inner). length boxes - inner]")
     (auto simp: erase_def)

declare contain_inner.simps [simp del]

text \<open>
  The outer loop of the first pass is a \<^verbatim>\<open>for\<close> loop whose increment \<^verbatim>\<open>++outer\<close> runs after
  every round of the inner loop, also after the round that erased the outer box and
  left by \<^verbatim>\<open>break\<close>.
\<close>

function contain_outer :: "rect list \<Rightarrow> nat \<Rightarrow> rect list" where
  "contain_outer boxes outer =
     (if outer < length boxes
      then contain_outer (contain_inner boxes outer (Suc outer)) (Suc outer)
      else boxes)"
  by pat_completeness auto
termination
proof (relation "measure (\<lambda>(boxes, outer). length boxes - outer)")
  show "wf (measure (\<lambda>(boxes, outer). length boxes - outer))" by simp
next
  fix boxes :: "rect list" and outer :: nat
  assume outer: "outer < length boxes"
  have len: "length (contain_inner boxes outer inner) \<le> length boxes" for inner
  proof (induction boxes outer inner rule: contain_inner.induct)
    case (1 boxes outer inner)
    have "length (erase boxes inner) \<le> length boxes" "length (erase boxes outer) \<le> length boxes"
      by (simp_all add: erase_def)
    with "1.IH" show ?case
      by (subst contain_inner.simps) (auto intro: order_trans)
  qed
  from outer len [of "Suc outer"]
  show "((contain_inner boxes outer (Suc outer), Suc outer), (boxes, outer))
      \<in> measure (\<lambda>(boxes, outer). length boxes - outer)"
    by simp
qed

declare contain_outer.simps [simp del]

text \<open>
  The second pass (overlap). When the intersection of the two boxes has a non-zero area:
  if the outer box's area is strictly greater, the inner box is erased and the scan
  continues at the same index; otherwise the outer box is erased, the outer iterator
  stays at its index and the inner iterator restarts right behind it.
\<close>

function overlap_inner :: "rect list \<Rightarrow> nat \<Rightarrow> nat \<Rightarrow> rect list" where
  "overlap_inner boxes outer_iter inner_iter =
     (if inner_iter < length boxes then
        if area (intersect (boxes ! inner_iter) (boxes ! outer_iter)) \<noteq> 0 then
          if area (boxes ! outer_iter) > area (boxes ! inner_iter)
          then overlap_inner (erase boxes inner_iter) outer_iter inner_iter
          else overlap_inner (erase boxes outer_iter) outer_iter (Suc outer_iter)
        else overlap_inner boxes outer_iter (Suc inner_iter)
      else boxes)"
  by pat_completeness auto
termination
  by (relation "measures [\<lambda>(boxes, outer_iter, inner_iter). length boxes,
                          \<lambda>(boxes, outer_iter, inner_iter). length boxes - inner_iter]")
     (auto simp: erase_def)

declare overlap_inner.simps [simp del]

function overlap_outer :: "rect list \<Rightarrow> nat \<Rightarrow> rect list" where
  "overlap_outer boxes outer_iter =
     (if outer_iter < length boxes
      then overlap_outer (overlap_inner boxes outer_iter (Suc outer_iter)) (Suc outer_iter)
      else boxes)"
  by pat_completeness auto
termination
proof (relation "measure (\<lambda>(boxes, outer_iter). length boxes - outer_iter)")
  show "wf (measure (\<lambda>(boxes, outer_iter). length boxes - outer_iter))" by simp
next
  fix boxes :: "rect list" and outer_iter :: nat
  assume outer: "outer_iter < length boxes"
  have len: "length (overlap_inner boxes outer_iter inner_iter) \<le> length boxes"
    for inner_iter
  proof (induction boxes outer_iter inner_iter rule: overlap_inner.induct)
    case (1 boxes outer_iter inner_iter)
    have "length (erase boxes inner_iter) \<le> length boxes"
      "length (erase boxes outer_iter) \<le> length boxes"
      by (simp_all add: erase_def)
    with "1.IH" show ?case
      by (subst overlap_inner.simps) (auto intro: order_trans)
  qed
  from outer len [of "Suc outer_iter"]
  show "((overlap_inner boxes outer_iter (Suc outer_iter), Suc outer_iter),
      (boxes, outer_iter)) \<in> measure (\<lambda>(boxes, outer_iter). length boxes - outer_iter)"
    by simp
qed

declare overlap_outer.simps [simp del]

definition remove_dup :: "rect list \<Rightarrow> rect list" where
  "remove_dup boxes = overlap_outer (contain_outer boxes 0) 0"

text \<open>
  Predicates for the properties of the deduplicator: two boxes whose intersection has
  area zero; a box of positive width and height; a box that contains both corners of
  another (the test of the first pass). \<open>settled boxes outer inner\<close> is the invariant of the
  second pass: every box before index \<open>outer\<close> is disjoint from every later box, and the
  box at \<open>outer\<close> is disjoint from the boxes between it and index \<open>inner\<close>.
\<close>

definition disjoint :: "rect \<Rightarrow> rect \<Rightarrow> bool" where
  "disjoint a b \<longleftrightarrow> area (intersect a b) = 0"

definition settled :: "rect list \<Rightarrow> nat \<Rightarrow> nat \<Rightarrow> bool" where
  "settled boxes outer inner \<longleftrightarrow>
     (\<forall>i j. i < j \<and> j < length boxes \<and> (i < outer \<or> i = outer \<and> j < inner)
        \<longrightarrow> disjoint (boxes ! i) (boxes ! j))"

definition positive :: "rect \<Rightarrow> bool" where
  "positive r \<longleftrightarrow> 0 < rect_width r \<and> 0 < rect_height r"

definition contains_rect :: "rect \<Rightarrow> rect \<Rightarrow> bool" where
  "contains_rect a b \<longleftrightarrow> contains a (rect_tl b) \<and> contains a (rect_br b)"

section \<open>The region materializer\<close>

text \<open>
  Images are \<^verbatim>\<open>cv::Mat\<close> values. The pixel operations are OpenCV's; the model records which
  operation is applied to which image, not the pixels: \<open>SourceImage cols rows\<close> is a decoded
  source image of that size, \<open>Roi m r\<close> is the sub-image \<^verbatim>\<open>cv::Mat(m, r)\<close>, \<open>CvtColorGray m\<close> is
  the result of \<^verbatim>\<open>cv::cvtColor(m, gray, CV_RGB2GRAY, 0)\<close>, and \<open>ThresholdOtsu m\<close> the result of
  \<^verbatim>\<open>cv::threshold(m, bw, 127.5f, max_channel_, cv::THRESH_OTSU)\<close>.
\<close>

datatype mat =
    SourceImage nat nat
  | Roi mat rect
  | CvtColorGray mat
  | ThresholdOtsu mat

fun size_area :: "mat \<Rightarrow> int" where
  "size_area (SourceImage cols rows) = int cols * int rows"
| "size_area (Roi m r) = area r"
| "size_area (CvtColorGray m) = size_area m"
| "size_area (ThresholdOtsu m) = size_area m"

definition mat_empty :: "mat \<Rightarrow> bool" where
  "mat_empty m \<longleftrightarrow> size_area m = 0"

text \<open>C++ division of \<^verbatim>\<open>int\<close> values truncates towards zero.\<close>

definition int_div :: "int \<Rightarrow> int \<Rightarrow> int" where
  "int_div a b = sgn a * sgn b * (\<bar>a\<bar> div \<bar>b\<bar>)"

definition create_text_areas :: "mat \<Rightarrow> rect list \<Rightarrow> mat list" where
  "create_text_areas img boxes =
     (let sum_area = foldl (\<lambda>sum_area r. sum_area + area r) 0 boxes
      in if sum_area \<ge> int_div (size_area img) 2
         then [CvtColorGray img]
         else map (\<lambda>r. ThresholdOtsu (CvtColorGray (Roi img r))) boxes)"

section \<open>The text normalizer\<close>

definition newline :: char where
  "newline = CHR 0x0A"

definition allowed_char :: "char \<Rightarrow> bool" where
  "allowed_char c \<longleftrightarrow>
     (c \<ge> CHR ''a'' \<and> c \<le> CHR ''z'') \<or>
     (c \<ge> CHR ''A'' \<and> c \<le> CHR ''Z'') \<or>
     (c \<ge> CHR ''0'' \<and> c \<le> CHR ''9'') \<or>
     c = CHR '' '' \<or> c = CHR '','' \<or> c = CHR ''.'' \<or>
     c = CHR ''!'' \<or> c = CHR ''?''"

text \<open>
  The first loop of \<^verbatim>\<open>string_processing\<close>, from index \<open>idx\<close> on, with the string \<open>norm1\<close>
  built so far. The neighbours a newline is tested against are those of the input \<open>str\<close>.
\<close>

function filter_chars :: "string \<Rightarrow> nat \<Rightarrow> string \<Rightarrow> string" where
  "filter_chars str idx norm1 =
     (if idx < length str then
        filter_chars str (Suc idx)
          (if allowed_char (str ! idx) then norm1 @ [str ! idx]
           else if str ! idx = newline then
             (if idx \<noteq> 0 \<and> idx \<noteq> length str - 1 \<and>
                 str ! (idx - 1) \<noteq> newline \<and> str ! (idx + 1) \<noteq> newline
              then norm1 @ [str ! idx]
              else norm1)
           else norm1)
      else norm1)"
  by pat_completeness auto
termination
  by (relation "measure (\<lambda>(str, idx, norm1). length str - idx)") auto

declare filter_chars.simps [simp del]

text \<open>The second loop (\<^verbatim>\<open>// Remove extra spaces\<close>), over the result of the first.\<close>

function collapse_spaces :: "string \<Rightarrow> nat \<Rightarrow> string \<Rightarrow> string" where
  "collapse_spaces norm1 idx norm2 =
     (if idx < length norm1 then
        collapse_spaces norm1 (Suc idx)
          (if norm1 ! idx = CHR '' '' then
             (if idx \<noteq> 0 \<and> idx \<noteq> length norm1 - 1 \<and> norm1 ! (idx - 1) \<noteq> CHR '' ''
              then norm2 @ [CHR '' '']
              else norm2)
           else norm2 @ [norm1 ! idx])
      else norm2)"
  by pat_completeness auto
termination
  by (relation "measure (\<lambda>(norm1, idx, norm2). length norm1 - idx)") auto

declare collapse_spaces.simps [simp del]

definition string_processing :: "string \<Rightarrow> string" where
  "string_processing str = collapse_spaces (filter_chars str 0 []) 0 []"

text \<open>
  Strings with two newlines next to each other, and strings that begin or end with a
  newline.
\<close>

fun adjacent_newlines :: "string \<Rightarrow> bool" where
  "adjacent_newlines (a # b # cs) \<longleftrightarrow> (a = newline \<and> b = newline) \<or> adjacent_newlines (b # cs)"
| "adjacent_newlines cs \<longleftrightarrow> False"

definition starts_with_newline :: "string \<Rightarrow> bool" where
  "starts_with_newline s \<longleftrightarrow> (case s of [] \<Rightarrow> False | c # cs \<Rightarrow> c = newline)"

definition ends_with_newline :: "string \<Rightarrow> bool" where
  "ends_with_newline s \<longleftrightarrow> s \<noteq> [] \<and> last s = newline"

definition newline_at_edge :: "string \<Rightarrow> bool" where
  "newline_at_edge s \<longleftrightarrow> s \<noteq> [] \<and> (hd s = newline \<or> last s = newline)"

text \<open>
  What the first loop keeps, described without the loop. A newline at index \<open>idx\<close> of the
  input is interior and isolated when it is neither the first nor the last character and
  neither neighbour in the input is a newline. The kept characters of an input are its
  allowed characters and its interior isolated newlines, in the order of the input.
\<close>

definition isolated_newline :: "string \<Rightarrow> nat \<Rightarrow> bool" where
  "isolated_newline str idx \<longleftrightarrow>
     str ! idx = newline \<and> idx \<noteq> 0 \<and> idx \<noteq> length str - 1 \<and>
     str ! (idx - 1) \<noteq> newline \<and> str ! (idx + 1) \<noteq> newline"

definition kept_chars :: "string \<Rightarrow> string" where
  "kept_chars str =
     map (\<lambda>idx. str ! idx)
       (filter (\<lambda>idx. allowed_char (str ! idx) \<or> isolated_newline str idx) [0..<length str])"

text \<open>
  The condition on the kept characters under which the newlines stay apart and inside:
  no two newlines are next to each other, the first character that is not a space is
  not a newline, and the string ends neither with a newline nor with a newline followed
  by a single space.
\<close>

definition leading_newline :: "string \<Rightarrow> bool" where
  "leading_newline k \<longleftrightarrow>
     (case dropWhile (\<lambda>c. c = CHR '' '') k of [] \<Rightarrow> False | c # cs \<Rightarrow> c = newline)"

primrec newline_closes :: "string \<Rightarrow> bool" where
  "newline_closes [] \<longleftrightarrow> False"
| "newline_closes (c # cs) \<longleftrightarrow>
     (c = newline \<and> (cs = [] \<or> cs = [CHR '' ''])) \<or> newline_closes cs"

definition newlines_separated :: "string \<Rightarrow> bool" where
  "newlines_separated k \<longleftrightarrow>
     \<not> adjacent_newlines k \<and> \<not> leading_newline k \<and> \<not> newline_closes k"

text \<open>
  The second loop as a recursion over the characters still to be read: \<open>b\<close> says that a
  character has been read and that the last one read was not a space, and a space is
  kept when \<open>b\<close> holds and the space is not the last character.
\<close>

fun squeeze :: "bool \<Rightarrow> string \<Rightarrow> string" where
  "squeeze b [] = []"
| "squeeze b (c # cs) =
     (if c = CHR '' '' then
        (if b \<and> cs \<noteq> [] then CHR '' '' # squeeze False cs else squeeze False cs)
      else c # squeeze True cs)"

section \<open>The word deduplicator\<close>

text \<open>
  \<^verbatim>\<open>std::string\<close> members used by \<^verbatim>\<open>normalize_result\<close>. Sizes are \<^verbatim>\<open>std::size_t\<close> values:
  unsigned, here 64 bits wide, and a subtraction below zero wraps around. \<^verbatim>\<open>find\<close> returns
  the first index at or after \<open>pos\<close> that holds the character, or \<^verbatim>\<open>npos\<close> (\<open>None\<close>).
  \<^verbatim>\<open>substr(pos, n)\<close> throws \<^verbatim>\<open>std::out_of_range\<close> when \<open>pos\<close> is behind the end, and takes
  at most the characters that are left.
\<close>

datatype std_exception = Out_of_range

definition size_sub :: "nat \<Rightarrow> nat \<Rightarrow> nat" where
  "size_sub a b = (a + 2 ^ 64 - b) mod 2 ^ 64"

function find_char :: "string \<Rightarrow> char \<Rightarrow> nat \<Rightarrow> nat option" where
  "find_char str c pos =
     (if pos < length str
      then if str ! pos = c then Some pos else find_char str c (Suc pos)
      else None)"
  by pat_completeness auto
termination
  by (relation "measure (\<lambda>(str, c, pos). length str - pos)") auto

declare find_char.simps [simp del]

definition substr :: "string \<Rightarrow> nat \<Rightarrow> nat \<Rightarrow> std_exception + string" where
  "substr str pos n =
     (if pos > length str then Inl Out_of_range
      else Inr (take (min n (length str - pos)) (drop pos str)))"

text \<open>\<^verbatim>\<open>for (s : text) str.append(s).append(1, ' ')\<close>: every piece is followed by a space.\<close>

definition append_all :: "string list \<Rightarrow> string" where
  "append_all text = foldl (\<lambda>str s. str @ s @ [CHR '' '']) [] text"

text \<open>
  The \<^verbatim>\<open>do ... while (start < str.length())\<close> loop: one round from \<open>start\<close> with the \<open>words\<close>
  collected so far.
\<close>

function split_words :: "string \<Rightarrow> nat \<Rightarrow> string list \<Rightarrow> std_exception + string list" where
  "split_words str start words =
     (let end = (case find_char str (CHR '' '') start of
                   None \<Rightarrow> length str
                 | Some e \<Rightarrow> e)
      in case substr str start (size_sub end start) of
           Inl ex \<Rightarrow> Inl ex
         | Inr tmp \<Rightarrow>
             (let words' = (if tmp \<in> set words then words else words @ [tmp]);
                  start' = end + 1
              in if start' < length str then split_words str start' words'
                 else Inr words'))"
  by pat_completeness auto
termination
proof (relation "measure (\<lambda>(str, start, words). length str - start)")
  show "wf (measure (\<lambda>(str, start, words). length str - start))" by simp
next
  fix str :: string and start :: nat and words words' :: "string list" and e start' :: nat
  assume e: "e = (case find_char str CHR '' '' start of None \<Rightarrow> length str | Some e \<Rightarrow> e)"
    and lt: "start' < length str" and start': "start' = e + 1"
  have ge: "find_char s c p = Some k \<Longrightarrow> p \<le> k" for s c p k
  proof (induction s c p rule: find_char.induct)
    case (1 s c p)
    then show ?case
      by (subst (asm) (2) find_char.simps) (auto split: if_splits)
  qed
  have "start \<le> e"
  proof (cases "find_char str CHR '' '' start")
    case None
    with e lt start' show ?thesis by simp
  next
    case (Some k)
    with e ge show ?thesis by simp
  qed
  with lt start'
  show "((str, start', words'), (str, start, words))
      \<in> measure (\<lambda>(str, start, words). length str - start)"
    by simp
qed

declare split_words.simps [simp del]

definition normalize_result :: "string list \<Rightarrow> std_exception + string" where
  "normalize_result text =
     (case split_words (append_all text) 0 [] of
        Inl ex \<Rightarrow> Inl ex
      | Inr words \<Rightarrow>
          (let str = append_all words
           in substr str 0 (size_sub (length str) 2)))"

section \<open>Recognition and the public entry points\<close>

text \<open>
  The external collaborators of one call: \<^verbatim>\<open>cv::imread\<close> (an undecodable file gives an
  empty image), the outcome of the OpenCV detection calls inside \<^verbatim>\<open>find_text_rects\<close>, and
  the Tesseract engine (whether \<^verbatim>\<open>Init\<close> succeeds, and for every image the text of a
  successful \<^verbatim>\<open>Recognize\<close>, or \<open>None\<close> when it fails).
\<close>

datatype rec_exception = RecException string

datatype detection =
    Filters_not_created
  | Cv_exception string
  | Grouping "rect list"

record collaborators =
  imread :: "string \<Rightarrow> mat"
  detect :: "mat \<Rightarrow> detection"
  ocr_init :: bool
  ocr_recognize :: "mat \<Rightarrow> string option"

definition find_text_rects :: "collaborators \<Rightarrow> mat \<Rightarrow> rec_exception + rect list" where
  "find_text_rects env img =
     (case detect env img of
        Filters_not_created \<Rightarrow> Inl (RecException ''could not create external region filters'')
      | Cv_exception what \<Rightarrow> Inl (RecException what)
      | Grouping boxes_groups \<Rightarrow> Inr boxes_groups)"

fun recognize_areas :: "collaborators \<Rightarrow> mat list \<Rightarrow> string list \<Rightarrow> string list" where
  "recognize_areas env [] rec_text = rec_text"
| "recognize_areas env (a # areas) rec_text =
     (case ocr_recognize env a of
        None \<Rightarrow> recognize_areas env areas rec_text
      | Some raw \<Rightarrow>
          (let res = string_processing raw
           in recognize_areas env areas (if res \<noteq> [] then rec_text @ [res] else rec_text)))"

definition alphabet_analisis :: "collaborators \<Rightarrow> mat list \<Rightarrow> rec_exception + string" where
  "alphabet_analisis env areas =
     (if ocr_init env
      then Inr (append_all (recognize_areas env areas []))
      else Inl (RecException ''could not initialize tesseract ocr''))"

text \<open>
  \<^verbatim>\<open>get_text\<close> returns its result together with the core stages it has entered, in order.
\<close>

datatype stage = Detection | Deduplication | Materialization | Recognition

definition get_text :: "collaborators \<Rightarrow> mat \<Rightarrow> stage list \<times> (rec_exception + string)" where
  "get_text env img =
     (if mat_empty img then ([], Inl (RecException ''failed to load image''))
      else case find_text_rects env img of
             Inl ex \<Rightarrow> ([Detection], Inl ex)
           | Inr boxes_groups \<Rightarrow>
               if length boxes_groups = 0 then ([Detection], Inr [])
               else (let boxes = remove_dup boxes_groups;
                         text_areas = create_text_areas img boxes
                     in ([Detection, Deduplication, Materialization, Recognition],
                         alphabet_analisis env text_areas)))"

definition get_text_file :: "collaborators \<Rightarrow> string \<Rightarrow> stage list \<times> (rec_exception + string)" where
  "get_text_file env file =
     (if file = [] then ([], Inl (RecException ''bad file name''))
      else get_text env (imread env file))"

text \<open>
  An instance of the collaborators for the examples below: the file \<^verbatim>\<open>"bad.png"\<close> does not
  decode (\<^verbatim>\<open>imread\<close> gives an empty image), every other file decodes to a 2 x 2 image, the
  detector finds no boxes, and the recognizer initialises and recognises nothing.
\<close>

definition blank_collaborators :: collaborators where
  "blank_collaborators =
     \<lparr>imread = (\<lambda>file. if file = ''bad.png'' then SourceImage 0 0 else SourceImage 2 2),
      detect = (\<lambda>img. Grouping []),
      ocr_init = True,
      ocr_recognize = (\<lambda>a. None)\<rparr>"

section \<open>Properties of the rectangle deduplicator\<close>

lemma intersect_commute: "intersect a b = intersect b a"
  by (simp add: intersect_def Let_def max.commute min.commute)

lemma overlap_dims:
  assumes "area (intersect a b) \<noteq> 0"
  shows "0 < min (rect_x a + rect_width a) (rect_x b + rect_width b) - max (rect_x a) (rect_x b)"
    and "0 < min (rect_y a + rect_height a) (rect_y b + rect_height b) - max (rect_y a) (rect_y b)"
  using assms by (auto simp: intersect_def Let_def area_def split: if_splits)

text \<open>
  A box both of whose corners lie in another box that it overlaps is strictly smaller in
  both dimensions, hence in area.
\<close>

lemma contained_smaller:
  assumes ov: "area (intersect a b) \<noteq> 0"
    and c: "contains a (rect_tl b)" "contains a (rect_br b)"
  shows "area b < area a"
proof -
  from overlap_dims [OF ov] c have w: "0 < rect_width b" "rect_width b < rect_width a"
    and h: "0 < rect_height b" "rect_height b < rect_height a"
    by (simp_all add: contains_def rect_tl_def rect_br_def)
  have "rect_width b * rect_height b < rect_width a * rect_height a"
    using w h by (intro mult_strict_mono) simp_all
  then show ?thesis by (simp add: area_def)
qed

text \<open>
  One round of the second pass on a tie, in a list of any length: when the box at
  \<open>outer_iter\<close> and the box at \<open>inner_iter\<close> overlap and have the same area, the outer
  (earlier) box is erased and the scan restarts behind the box that takes its place.
\<close>

lemma overlap_inner_tie:
  assumes "inner_iter < length boxes"
    and "area (intersect (boxes ! inner_iter) (boxes ! outer_iter)) \<noteq> 0"
    and "area (boxes ! outer_iter) = area (boxes ! inner_iter)"
  shows "overlap_inner boxes outer_iter inner_iter
    = overlap_inner (erase boxes outer_iter) outer_iter (Suc outer_iter)"
  using assms by (subst overlap_inner.simps) simp

text \<open>
  Claim C1, as the code has it: of two overlapping boxes of equal area \<open>[a, b]\<close>, the
  deduplicator removes the earlier box \<open>a\<close> and keeps the later box \<open>b\<close>. The comparison
  \<^verbatim>\<open>outer_iter->area() > inner_iter->area()\<close> is strict, so a tie takes the \<^verbatim>\<open>else\<close> branch,
  which erases the outer (earlier) box.
\<close>

theorem remove_dup_tie_keeps_later:
  assumes ov: "area (intersect b a) \<noteq> 0" and eq: "area a = area b"
  shows "remove_dup [a, b] = [b]"
proof -
  have ov': "area (intersect a b) \<noteq> 0"
    using ov by (simp add: intersect_commute)
  have n1: "(contains a (rect_tl b) \<and> contains a (rect_br b)) = False"
    using contained_smaller [OF ov'] eq by auto
  have n2: "(contains b (rect_tl a) \<and> contains b (rect_br a)) = False"
    using contained_smaller [OF ov] eq by auto
  have c2: "contain_inner [a, b] 0 (Suc (Suc 0)) = [a, b]"
    by (subst contain_inner.simps) simp
  have c1: "contain_inner [a, b] 0 (Suc 0) = [a, b]"
    by (subst contain_inner.simps) (simp add: n1 n2 c2)
  have c3: "contain_inner [a, b] (Suc 0) (Suc (Suc 0)) = [a, b]"
    by (subst contain_inner.simps) simp
  have o2: "contain_outer [a, b] (Suc (Suc 0)) = [a, b]"
    by (subst contain_outer.simps) simp
  have o1: "contain_outer [a, b] (Suc 0) = [a, b]"
    by (subst contain_outer.simps) (simp add: c3 o2)
  have pass1: "contain_outer [a, b] 0 = [a, b]"
    by (subst contain_outer.simps) (simp add: c1 o1)
  have i1: "overlap_inner [b] 0 (Suc 0) = [b]"
    by (subst overlap_inner.simps) simp
  have i0: "overlap_inner [a, b] 0 (Suc 0) = [b]"
    by (subst overlap_inner.simps) (simp add: ov eq erase_def i1)
  have p1: "overlap_outer [b] (Suc 0) = [b]"
    by (subst overlap_outer.simps) simp
  have pass2: "overlap_outer [a, b] 0 = [b]"
    by (subst overlap_outer.simps) (simp add: i0 p1)
  show ?thesis
    by (simp add: remove_dup_def pass1 pass2)
qed

text \<open>The theorem at two overlapping 10 x 10 boxes.\<close>

theorem remove_dup_tie_keeps_later_witness:
  "area (intersect (Rect 5 5 10 10) (Rect 0 0 10 10)) \<noteq> 0 \<and>
   area (Rect 0 0 10 10) = area (Rect 5 5 10 10) \<and>
   remove_dup [Rect 0 0 10 10, Rect 5 5 10 10] = [Rect 5 5 10 10]"
proof -
  have ov: "area (intersect (Rect 5 5 10 10) (Rect 0 0 10 10)) \<noteq> 0"
    by (simp add: intersect_def area_def Rect_def)
  have eq: "area (Rect 0 0 10 10) = area (Rect 5 5 10 10)"
    by (simp add: area_def Rect_def)
  from remove_dup_tie_keeps_later [OF ov eq] ov eq show ?thesis by simp
qed

text \<open>
  Claim C1 as stated fails: with \<open>A = Rect 0 0 10 10\<close> before \<open>B = Rect 5 5 10 10\<close>, two
  overlapping boxes of area 100, the output holds \<open>B\<close> and not \<open>A\<close>.
\<close>

theorem remove_dup_tie_counterexample:
  "area (intersect (Rect 5 5 10 10) (Rect 0 0 10 10)) \<noteq> 0 \<and>
   area (Rect 0 0 10 10) = area (Rect 5 5 10 10) \<and>
   Rect 0 0 10 10 \<notin> set (remove_dup [Rect 0 0 10 10, Rect 5 5 10 10]) \<and>
   Rect 5 5 10 10 \<in> set (remove_dup [Rect 0 0 10 10, Rect 5 5 10 10])"
  by code_simp

text \<open>
  Claim C2 (the containment pass restarts the inner scan with the box that took the
  erased outer box's place) fails on \<open>[A, B, C]\<close> with \<open>A = Rect 1 1 1 1\<close>,
  \<open>B = Rect 0 0 10 10\<close>, \<open>C = Rect 5 5 2 2\<close>, where \<open>B\<close> contains both \<open>A\<close> and \<open>C\<close>. The inner
  loop erases \<open>A\<close>, so \<open>B\<close> stands at index 0; after the \<^verbatim>\<open>break\<close> the \<^verbatim>\<open>for\<close> loop's \<^verbatim>\<open>++outer\<close>
  moves on to index 1, and the pass ends with \<open>C\<close> still in the list. An inner scan with
  \<open>B\<close> as the outer box would have erased \<open>C\<close>.
\<close>

theorem contain_pass_skips_successor:
  "contain_inner [Rect 1 1 1 1, Rect 0 0 10 10, Rect 5 5 2 2] 0 1
     = [Rect 0 0 10 10, Rect 5 5 2 2] \<and>
   contain_outer [Rect 1 1 1 1, Rect 0 0 10 10, Rect 5 5 2 2] 0
     = contain_outer [Rect 0 0 10 10, Rect 5 5 2 2] 1 \<and>
   contain_outer [Rect 1 1 1 1, Rect 0 0 10 10, Rect 5 5 2 2] 0
     = [Rect 0 0 10 10, Rect 5 5 2 2] \<and>
   contains (Rect 0 0 10 10) (rect_tl (Rect 5 5 2 2)) \<and>
   contains (Rect 0 0 10 10) (rect_br (Rect 5 5 2 2)) \<and>
   contain_inner [Rect 0 0 10 10, Rect 5 5 2 2] 0 1 = [Rect 0 0 10 10]"
  by code_simp

text \<open>
  Claim C3 (no box of the output is contained in another) fails on \<open>[A, B, C]\<close> with
  \<open>A = Rect 1 1 1 1\<close>, \<open>B = Rect 0 0 10 10\<close> and the zero-area box \<open>C = Rect 5 5 0 0\<close>: the first
  pass never compares \<open>B\<close> with \<open>C\<close>, the second pass keeps both because their intersection
  has area 0, and the output holds \<open>B\<close> and \<open>C\<close> with both corners of \<open>C\<close> inside \<open>B\<close>.
\<close>

theorem remove_dup_leaves_contained_box:
  "remove_dup [Rect 1 1 1 1, Rect 0 0 10 10, Rect 5 5 0 0] = [Rect 0 0 10 10, Rect 5 5 0 0] \<and>
   contains (Rect 0 0 10 10) (rect_tl (Rect 5 5 0 0)) \<and>
   contains (Rect 0 0 10 10) (rect_br (Rect 5 5 0 0))"
  by code_simp

text \<open>
  Claim C4 (running the deduplicator on its own output changes nothing) fails on the same
  input: the first run returns \<open>[B, C]\<close>, and the second run, which now starts with \<open>B\<close> as
  the outer box, erases \<open>C\<close>.
\<close>

theorem remove_dup_second_run_removes:
  "remove_dup [Rect 1 1 1 1, Rect 0 0 10 10, Rect 5 5 0 0] = [Rect 0 0 10 10, Rect 5 5 0 0] \<and>
   remove_dup (remove_dup [Rect 1 1 1 1, Rect 0 0 10 10, Rect 5 5 0 0]) = [Rect 0 0 10 10]"
  by code_simp

subsection \<open>What the deduplicator guarantees\<close>

text \<open>
  The second pass repositions its iterators correctly after every erase, so its
  invariant \<open>settled\<close> is kept, and in the output any two boxes at different positions have
  an intersection of area zero, for every input.
\<close>

lemma length_erase: "i < length xs \<Longrightarrow> length (erase xs i) = length xs - 1"
  by (simp add: erase_def)

lemma nth_erase:
  "j < length xs - 1 \<Longrightarrow> erase xs i ! j = (if j < i then xs ! j else xs ! Suc j)"
  by (auto simp: erase_def nth_append min_def)

lemma erase_beyond: "length xs \<le> i \<Longrightarrow> erase xs i = xs"
  by (simp add: erase_def)

lemma settledD:
  "settled boxes outer inner \<Longrightarrow> i < j \<Longrightarrow> j < length boxes \<Longrightarrow>
     i < outer \<or> i = outer \<and> j < inner \<Longrightarrow> disjoint (boxes ! i) (boxes ! j)"
  unfolding settled_def by blast

lemma settled_erase_inner:
  assumes s: "settled boxes outer inner" and lt: "outer < inner" and k: "inner < length boxes"
  shows "settled (erase boxes inner) outer inner"
  unfolding settled_def
proof (intro allI impI)
  fix i j
  assume a: "i < j \<and> j < length (erase boxes inner) \<and> (i < outer \<or> i = outer \<and> j < inner)"
  then have j: "j < length boxes - 1" using k by (simp add: length_erase)
  from a lt have i: "i < inner" by auto
  have ij: "i < length boxes - 1" using a j by simp
  show "disjoint (erase boxes inner ! i) (erase boxes inner ! j)"
  proof (cases "j < inner")
    case True
    have "disjoint (boxes ! i) (boxes ! j)"
      using a j by (intro settledD [OF s]) auto
    with True i j ij show ?thesis by (simp add: nth_erase)
  next
    case False
    with a have io: "i < outer" by auto
    have "disjoint (boxes ! i) (boxes ! Suc j)"
      using a j io by (intro settledD [OF s]) auto
    with False i j ij show ?thesis by (simp add: nth_erase)
  qed
qed

lemma settled_erase_outer:
  assumes s: "settled boxes outer inner"
  shows "settled (erase boxes outer) outer (Suc outer)"
proof (cases "outer < length boxes")
  case False
  then have "erase boxes outer = boxes" by (simp add: erase_beyond)
  moreover have "settled boxes outer (Suc outer)"
    unfolding settled_def using settledD [OF s] by auto
  ultimately show ?thesis by simp
next
  case True
  show ?thesis
    unfolding settled_def
  proof (intro allI impI)
    fix i j
    assume a: "i < j \<and> j < length (erase boxes outer) \<and> (i < outer \<or> i = outer \<and> j < Suc outer)"
    then have j: "j < length boxes - 1" using True by (simp add: length_erase)
    from a have io: "i < outer" by auto
    have ij: "i < length boxes - 1" using a j by simp
    show "disjoint (erase boxes outer ! i) (erase boxes outer ! j)"
    proof (cases "j < outer")
      case True
      have "disjoint (boxes ! i) (boxes ! j)"
        using a j io by (intro settledD [OF s]) auto
      with True io j ij show ?thesis by (simp add: nth_erase)
    next
      case False
      have "disjoint (boxes ! i) (boxes ! Suc j)"
        using a j io by (intro settledD [OF s]) auto
      with False io j ij show ?thesis by (simp add: nth_erase)
    qed
  qed
qed

lemma settled_next_inner:
  assumes s: "settled boxes outer inner"
    and d: "area (intersect (boxes ! inner) (boxes ! outer)) = 0"
  shows "settled boxes outer (Suc inner)"
  unfolding settled_def
proof (intro allI impI)
  fix i j
  assume a: "i < j \<and> j < length boxes \<and> (i < outer \<or> i = outer \<and> j < Suc inner)"
  show "disjoint (boxes ! i) (boxes ! j)"
  proof (cases "i = outer \<and> j = inner")
    case True
    with d show ?thesis by (simp add: disjoint_def intersect_commute)
  next
    case False
    with a show ?thesis by (intro settledD [OF s]) auto
  qed
qed

lemma settled_next_outer:
  assumes s: "settled boxes outer inner" and k: "length boxes \<le> inner"
  shows "settled boxes (Suc outer) (Suc (Suc outer))"
  unfolding settled_def
proof (intro allI impI)
  fix i j
  assume a: "i < j \<and> j < length boxes \<and> (i < Suc outer \<or> i = Suc outer \<and> j < Suc (Suc outer))"
  with k show "disjoint (boxes ! i) (boxes ! j)"
    by (intro settledD [OF s]) auto
qed

lemma overlap_inner_settled:
  assumes "settled boxes outer_iter inner_iter" "outer_iter < inner_iter"
  shows "settled (overlap_inner boxes outer_iter inner_iter) (Suc outer_iter) (Suc (Suc outer_iter))"
  using assms
proof (induction boxes outer_iter inner_iter rule: overlap_inner.induct)
  case (1 boxes outer_iter inner_iter)
  note s = "1.prems"(1) and lt = "1.prems"(2)
  show ?case
  proof (cases "inner_iter < length boxes")
    case False
    then have "overlap_inner boxes outer_iter inner_iter = boxes"
      by (subst overlap_inner.simps) simp
    with settled_next_outer [OF s] False show ?thesis by simp
  next
    case True
    show ?thesis
    proof (cases "area (intersect (boxes ! inner_iter) (boxes ! outer_iter)) \<noteq> 0")
      case False
      then have "overlap_inner boxes outer_iter inner_iter
          = overlap_inner boxes outer_iter (Suc inner_iter)"
        using True by (subst overlap_inner.simps) simp
      moreover from False have "settled boxes outer_iter (Suc inner_iter)"
        by (intro settled_next_inner [OF s]) simp
      ultimately show ?thesis
        using "1.IH"(3) [OF True False] lt by simp
    next
      case ov: True
      show ?thesis
      proof (cases "area (boxes ! outer_iter) > area (boxes ! inner_iter)")
        case bigger: True
        have "overlap_inner boxes outer_iter inner_iter
            = overlap_inner (erase boxes inner_iter) outer_iter inner_iter"
          using True ov bigger by (subst overlap_inner.simps) simp
        with "1.IH"(1) [OF True ov bigger settled_erase_inner [OF s lt True] lt]
        show ?thesis by simp
      next
        case False
        have "overlap_inner boxes outer_iter inner_iter
            = overlap_inner (erase boxes outer_iter) outer_iter (Suc outer_iter)"
          using True ov False by (subst overlap_inner.simps) simp
        with "1.IH"(2) [OF True ov False settled_erase_outer [OF s]]
        show ?thesis by simp
      qed
    qed
  qed
qed

lemma overlap_outer_settled:
  assumes "settled boxes outer_iter (Suc outer_iter)"
  shows "sorted_wrt disjoint (overlap_outer boxes outer_iter)"
  using assms
proof (induction boxes outer_iter rule: overlap_outer.induct)
  case (1 boxes outer_iter)
  show ?case
  proof (cases "outer_iter < length boxes")
    case True
    from overlap_inner_settled [OF "1.prems"] "1.IH" [OF True] True
    show ?thesis by (subst overlap_outer.simps) simp
  next
    case False
    have "sorted_wrt disjoint boxes"
      unfolding sorted_wrt_iff_nth_less using settledD [OF "1.prems"] False by auto
    with False show ?thesis by (subst overlap_outer.simps) simp
  qed
qed

theorem remove_dup_overlap_free: "sorted_wrt disjoint (remove_dup boxes)"
  unfolding remove_dup_def
  by (rule overlap_outer_settled) (simp add: settled_def)

text \<open>
  A box of positive width and height that lies inside another overlaps it. So for inputs
  of such boxes the second pass also removes what the first pass missed: the output has
  no box inside another, and a second run changes nothing. The skipped outer element of
  the first pass shows in the output only through boxes of zero width or height.
\<close>

lemma set_erase: "set (erase xs i) \<subseteq> set xs"
  unfolding erase_def using set_take_subset [of i xs] set_drop_subset [of "Suc i" xs] by auto

lemma set_contain_inner: "set (contain_inner boxes outer inner) \<subseteq> set boxes"
proof (induction boxes outer inner rule: contain_inner.induct)
  case (1 boxes outer inner)
  from "1.IH" set_erase [of boxes inner] set_erase [of boxes outer] show ?case
    by (subst contain_inner.simps) (simp, blast)
qed

lemma set_contain_outer: "set (contain_outer boxes outer) \<subseteq> set boxes"
proof (induction boxes outer rule: contain_outer.induct)
  case (1 boxes outer)
  from "1.IH" set_contain_inner [of boxes outer "Suc outer"] show ?case
    by (subst contain_outer.simps) (auto split: if_splits)
qed

lemma set_overlap_inner: "set (overlap_inner boxes outer_iter inner_iter) \<subseteq> set boxes"
proof (induction boxes outer_iter inner_iter rule: overlap_inner.induct)
  case (1 boxes outer_iter inner_iter)
  from "1.IH" set_erase [of boxes inner_iter] set_erase [of boxes outer_iter] show ?case
    by (subst overlap_inner.simps) (simp, blast)
qed

lemma set_overlap_outer: "set (overlap_outer boxes outer_iter) \<subseteq> set boxes"
proof (induction boxes outer_iter rule: overlap_outer.induct)
  case (1 boxes outer_iter)
  from "1.IH" set_overlap_inner [of boxes outer_iter "Suc outer_iter"] show ?case
    by (subst overlap_outer.simps) (auto split: if_splits)
qed

lemma set_remove_dup: "set (remove_dup boxes) \<subseteq> set boxes"
  unfolding remove_dup_def using set_overlap_outer set_contain_outer by blast

lemma contained_overlaps:
  assumes p: "positive b" and c: "contains_rect a b"
  shows "area (intersect a b) \<noteq> 0"
proof -
  from c have x: "rect_x a \<le> rect_x b" "rect_x b + rect_width b < rect_x a + rect_width a"
    and y: "rect_y a \<le> rect_y b" "rect_y b + rect_height b < rect_y a + rect_height a"
    by (simp_all add: contains_rect_def contains_def rect_tl_def rect_br_def)
  have w: "min (rect_x a + rect_width a) (rect_x b + rect_width b) - max (rect_x a) (rect_x b)
      = rect_width b"
    using x by simp
  have h: "min (rect_y a + rect_height a) (rect_y b + rect_height b) - max (rect_y a) (rect_y b)
      = rect_height b"
    using y by simp
  from p have "0 < rect_width b * rect_height b"
    by (simp add: positive_def)
  moreover from p w h have "area (intersect a b) = rect_width b * rect_height b"
    unfolding intersect_def Let_def w h by (simp add: area_def positive_def)
  ultimately show ?thesis by linarith
qed

lemma not_contains_self: "\<not> contains_rect a a"
  by (simp add: contains_rect_def contains_def rect_br_def)

lemma disjoint_commute: "disjoint a b \<longleftrightarrow> disjoint b a"
  by (simp add: disjoint_def intersect_commute)

lemma disjoint_not_contained:
  assumes d: "sorted_wrt disjoint xs" and p: "\<forall>r\<in>set xs. positive r"
    and a: "a \<in> set xs" and b: "b \<in> set xs"
  shows "\<not> contains_rect a b"
proof
  assume c: "contains_rect a b"
  from a b obtain i j where i: "i < length xs" "xs ! i = a" and j: "j < length xs" "xs ! j = b"
    by (auto simp: in_set_conv_nth)
  from c not_contains_self i j have "i \<noteq> j" by auto
  then have "disjoint a b"
  proof (cases "i < j")
    case True
    with d i j show ?thesis by (auto simp: sorted_wrt_iff_nth_less)
  next
    case False
    with \<open>i \<noteq> j\<close> have "j < i" by simp
    with d i j have "disjoint b a" by (auto simp: sorted_wrt_iff_nth_less)
    then show ?thesis by (simp add: disjoint_commute)
  qed
  moreover from p b have "positive b" by blast
  ultimately show False
    using contained_overlaps [OF _ c] by (simp add: disjoint_def)
qed

theorem remove_dup_positive_no_containment:
  assumes "\<forall>r\<in>set boxes. positive r"
  shows "\<forall>a\<in>set (remove_dup boxes). \<forall>b\<in>set (remove_dup boxes). \<not> contains_rect a b"
proof -
  from assms set_remove_dup have "\<forall>r\<in>set (remove_dup boxes). positive r" by blast
  with disjoint_not_contained [OF remove_dup_overlap_free] show ?thesis by blast
qed

lemma contain_inner_unchanged:
  assumes "\<forall>a\<in>set boxes. \<forall>b\<in>set boxes. \<not> contains_rect a b" "outer < length boxes"
  shows "contain_inner boxes outer inner = boxes"
  using assms
proof (induction boxes outer inner rule: contain_inner.induct)
  case (1 boxes outer inner)
  show ?case
  proof (cases "inner < length boxes")
    case False
    then show ?thesis by (subst contain_inner.simps) simp
  next
    case True
    with "1.prems" have n1: "\<not> contains_rect (boxes ! outer) (boxes ! inner)"
      and n2: "\<not> contains_rect (boxes ! inner) (boxes ! outer)"
      by simp_all
    then have c1: "\<not> (contains (boxes ! outer) (rect_tl (boxes ! inner)) \<and>
        contains (boxes ! outer) (rect_br (boxes ! inner)))"
      and c2: "\<not> (contains (boxes ! inner) (rect_tl (boxes ! outer)) \<and>
        contains (boxes ! inner) (rect_br (boxes ! outer)))"
      by (simp_all add: contains_rect_def)
    have "contain_inner boxes outer inner = contain_inner boxes outer (Suc inner)"
      by (subst contain_inner.simps) (simp only: True c1 c2 if_True if_False)
    with "1.IH"(2) [OF True c1 c2 "1.prems"] show ?thesis by simp
  qed
qed

lemma contain_outer_unchanged:
  assumes "\<forall>a\<in>set boxes. \<forall>b\<in>set boxes. \<not> contains_rect a b"
  shows "contain_outer boxes outer = boxes"
  using assms
proof (induction boxes outer rule: contain_outer.induct)
  case (1 boxes outer)
  show ?case
  proof (cases "outer < length boxes")
    case False
    then show ?thesis by (subst contain_outer.simps) simp
  next
    case True
    have e: "contain_inner boxes outer (Suc outer) = boxes"
      by (rule contain_inner_unchanged [OF "1.prems" True])
    from "1.IH" [OF True] "1.prems" e have "contain_outer boxes (Suc outer) = boxes"
      by simp
    with True e show ?thesis by (subst contain_outer.simps) simp
  qed
qed

lemma overlap_inner_unchanged:
  assumes "sorted_wrt disjoint boxes" "outer_iter < inner_iter"
  shows "overlap_inner boxes outer_iter inner_iter = boxes"
  using assms
proof (induction boxes outer_iter inner_iter rule: overlap_inner.induct)
  case (1 boxes outer_iter inner_iter)
  show ?case
  proof (cases "inner_iter < length boxes")
    case False
    then show ?thesis by (subst overlap_inner.simps) simp
  next
    case True
    with "1.prems" have "disjoint (boxes ! outer_iter) (boxes ! inner_iter)"
      by (simp add: sorted_wrt_iff_nth_less)
    then have z: "\<not> area (intersect (boxes ! inner_iter) (boxes ! outer_iter)) \<noteq> 0"
      by (simp add: disjoint_def intersect_commute)
    have "overlap_inner boxes outer_iter inner_iter
        = overlap_inner boxes outer_iter (Suc inner_iter)"
      using True z by (subst overlap_inner.simps) simp
    with "1.IH"(3) [OF True z "1.prems"(1)] "1.prems"(2) show ?thesis by simp
  qed
qed

lemma overlap_outer_unchanged:
  assumes "sorted_wrt disjoint boxes"
  shows "overlap_outer boxes outer_iter = boxes"
  using assms
proof (induction boxes outer_iter rule: overlap_outer.induct)
  case (1 boxes outer_iter)
  show ?case
  proof (cases "outer_iter < length boxes")
    case False
    then show ?thesis by (subst overlap_outer.simps) simp
  next
    case True
    have e: "overlap_inner boxes outer_iter (Suc outer_iter) = boxes"
      by (rule overlap_inner_unchanged [OF "1.prems"]) simp
    from "1.IH" [OF True] "1.prems" e have "overlap_outer boxes (Suc outer_iter) = boxes"
      by simp
    with True e show ?thesis by (subst overlap_outer.simps) simp
  qed
qed

theorem remove_dup_positive_idempotent:
  assumes "\<forall>r\<in>set boxes. positive r"
  shows "remove_dup (remove_dup boxes) = remove_dup boxes"
proof -
  have d: "sorted_wrt disjoint (remove_dup boxes)"
    by (rule remove_dup_overlap_free)
  have "contain_outer (remove_dup boxes) 0 = remove_dup boxes"
    by (rule contain_outer_unchanged [OF remove_dup_positive_no_containment [OF assms]])
  with overlap_outer_unchanged [OF d] show ?thesis
    by (simp add: remove_dup_def)
qed

section \<open>Properties of the text normalizer and the word deduplicator\<close>

text \<open>
  Claim C8: \<^verbatim>\<open>string_processing\<close> turns \<^verbatim>\<open>"H3ll0!\n\n\nWorld??  foo"\<close> into
  \<^verbatim>\<open>"H3ll0!World?? foo"\<close>.
\<close>

theorem string_processing_example:
  "string_processing (''H3ll0!'' @ [newline, newline, newline] @ ''World??  foo'')
     = ''H3ll0!World?? foo''"
  by code_simp

subsection \<open>Newlines in the output of the text normalizer\<close>

text \<open>
  The first loop returns the kept characters of its input, and the second loop is the
  recursion \<open>squeeze\<close> over them.
\<close>

lemma allowed_not_newline: "allowed_char c \<Longrightarrow> c \<noteq> newline"
  by (auto simp: allowed_char_def newline_def)

lemma space_not_newline: "CHR '' '' \<noteq> newline"
  by (simp add: newline_def)

lemma filter_chars_kept:
  "filter_chars str idx norm1 =
     norm1 @ map (\<lambda>idx. str ! idx)
       (filter (\<lambda>idx. allowed_char (str ! idx) \<or> isolated_newline str idx) [idx..<length str])"
proof (induction str idx norm1 rule: filter_chars.induct)
  case (1 str idx norm1)
  show ?case
  proof (cases "idx < length str")
    case False
    then show ?thesis by (subst filter_chars.simps) simp
  next
    case True
    then have upt: "[idx..<length str] = idx # [Suc idx..<length str]"
      by (simp add: upt_conv_Cons)
    from True "1.IH" [OF True] show ?thesis
      by (subst filter_chars.simps)
        (auto simp: upt isolated_newline_def dest: allowed_not_newline)
  qed
qed

lemma filter_chars_kept_chars: "filter_chars str 0 [] = kept_chars str"
  by (simp add: filter_chars_kept kept_chars_def)

lemma collapse_spaces_squeeze:
  "collapse_spaces (pre @ suf) (length pre) norm2
     = norm2 @ squeeze (pre \<noteq> [] \<and> last pre \<noteq> CHR '' '') suf"
proof (induction suf arbitrary: pre norm2)
  case Nil
  show ?case by (subst collapse_spaces.simps) simp
next
  case (Cons c cs)
  have step: "collapse_spaces ((pre @ [c]) @ cs) (length (pre @ [c])) acc
      = acc @ squeeze (c \<noteq> CHR '' '') cs" for acc
    using Cons.IH [of "pre @ [c]" acc] by simp
  have prev: "(pre @ c # cs) ! (length pre - 1) = last pre" if "pre \<noteq> []"
    using that by (simp add: nth_append last_conv_nth)
  have last_idx: "length pre = length pre + length cs \<longleftrightarrow> cs = []"
    by simp
  show ?case
  proof (cases "pre = []")
    case True
    with step [of norm2] step [of "norm2 @ [c]"] show ?thesis
      by (subst collapse_spaces.simps) auto
  next
    case False
    with step [of norm2] step [of "norm2 @ [c]"] prev [OF False] show ?thesis
      by (subst collapse_spaces.simps) (auto simp: last_idx)
  qed
qed

lemma string_processing_squeeze: "string_processing str = squeeze False (kept_chars str)"
  using collapse_spaces_squeeze [of "[]" "kept_chars str" "[]"]
  by (simp add: string_processing_def filter_chars_kept_chars)

text \<open>
  What \<open>squeeze\<close> does to the newlines: it neither joins nor separates two of them, it
  leaves one at the front when only spaces stand before it, it leaves one at the end when
  nothing or a single space stands behind it, and it drops none.
\<close>

lemma newline_at_edge_split:
  "newline_at_edge s \<longleftrightarrow> starts_with_newline s \<or> ends_with_newline s"
  by (cases s) (auto simp: newline_at_edge_def starts_with_newline_def ends_with_newline_def)

lemma adjacent_newlines_Cons:
  "adjacent_newlines (c # cs) \<longleftrightarrow> (c = newline \<and> starts_with_newline cs) \<or> adjacent_newlines cs"
  by (cases cs) (simp_all add: starts_with_newline_def)

lemma ends_with_newline_Cons:
  "ends_with_newline (c # cs) \<longleftrightarrow> (cs = [] \<and> c = newline) \<or> ends_with_newline cs"
  by (simp add: ends_with_newline_def)

lemma squeeze_starts: "starts_with_newline (squeeze True cs) \<longleftrightarrow> starts_with_newline cs"
  by (cases cs) (simp_all add: starts_with_newline_def space_not_newline)

lemma squeeze_leading: "starts_with_newline (squeeze False cs) \<longleftrightarrow> leading_newline cs"
  by (induction cs) (simp_all add: starts_with_newline_def leading_newline_def)

lemma squeeze_empty: "squeeze True cs = [] \<longleftrightarrow> cs = [] \<or> cs = [CHR '' '']"
  by (cases cs) auto

lemma squeeze_adjacent: "adjacent_newlines (squeeze b cs) \<longleftrightarrow> adjacent_newlines cs"
proof (induction cs arbitrary: b)
  case Nil
  show ?case by simp
next
  case (Cons c cs)
  show ?case
  proof (cases "c = CHR '' ''")
    case True
    with Cons.IH [of False] show ?thesis
      by (simp add: adjacent_newlines_Cons space_not_newline)
  next
    case False
    with Cons.IH [of True] show ?thesis
      by (simp add: adjacent_newlines_Cons squeeze_starts)
  qed
qed

lemma squeeze_ends: "ends_with_newline (squeeze b cs) \<longleftrightarrow> newline_closes cs"
proof (induction cs arbitrary: b)
  case Nil
  show ?case by (simp add: ends_with_newline_def)
next
  case (Cons c cs)
  show ?case
  proof (cases "c = CHR '' ''")
    case True
    with Cons.IH [of False] show ?thesis
      by (auto simp: ends_with_newline_Cons space_not_newline ends_with_newline_def)
  next
    case False
    with Cons.IH [of True] show ?thesis
      by (simp add: ends_with_newline_Cons squeeze_empty) blast
  qed
qed

lemma squeeze_newlines:
  "filter (\<lambda>c. c = newline) (squeeze b cs) = filter (\<lambda>c. c = newline) cs"
  by (induction cs arbitrary: b) (simp_all add: space_not_newline)

lemma kept_chars_newlines:
  "filter (\<lambda>c. c = newline) (kept_chars str)
     = map (\<lambda>idx. str ! idx) (filter (isolated_newline str) [0..<length str])"
proof -
  have "(allowed_char (str ! idx) \<or> isolated_newline str idx) \<and> str ! idx = newline
      \<longleftrightarrow> isolated_newline str idx" for idx
    using allowed_not_newline [of "str ! idx"] by (auto simp: isolated_newline_def)
  then show ?thesis
    by (simp add: kept_chars_def filter_map comp_def)
qed

text \<open>
  Claim C5, as the code has it. The first loop tests the neighbours of a newline in the
  input, not in the filtered string, so the output has exactly as many newlines as the
  input has interior isolated newlines. The output has no two adjacent newlines and
  neither begins nor ends with a newline exactly when the kept characters of the input
  satisfy \<open>newlines_separated\<close>: no two of the kept newlines are next to each other, the
  first kept character that is not a space is not a newline, and the kept characters end
  neither with a newline nor with a newline followed by a single space.
\<close>

theorem string_processing_newlines:
  "(\<not> adjacent_newlines (string_processing str) \<and> \<not> newline_at_edge (string_processing str)
      \<longleftrightarrow> newlines_separated (kept_chars str)) \<and>
   length (filter (\<lambda>c. c = newline) (string_processing str))
     = length (filter (isolated_newline str) [0..<length str])"
proof -
  have "length (filter (\<lambda>c. c = newline) (string_processing str))
      = length (filter (isolated_newline str) [0..<length str])"
    by (simp add: string_processing_squeeze squeeze_newlines kept_chars_newlines)
  then show ?thesis
    by (simp add: string_processing_squeeze newline_at_edge_split squeeze_adjacent
        squeeze_leading squeeze_ends newlines_separated_def)
qed

text \<open>
  The theorem at inputs on which the newlines stay apart and inside although a dropped
  character or a space stands next to a newline (\<^verbatim>\<open>"Hello-\nbig  world\n"\<close>, \<^verbatim>\<open>"end-\n"\<close>,
  \<^verbatim>\<open>"hello \nworld"\<close>, \<^verbatim>\<open>"a\n  "\<close>), and at \<^verbatim>\<open>"a\n#\nb"\<close>, where the condition fails and two
  newlines meet.
\<close>

theorem string_processing_newlines_witness:
  "newlines_separated (kept_chars (''Hello-'' @ [newline] @ ''big  world'' @ [newline])) \<and>
   string_processing (''Hello-'' @ [newline] @ ''big  world'' @ [newline])
     = ''Hello'' @ [newline] @ ''big world'' \<and>
   \<not> adjacent_newlines (string_processing (''Hello-'' @ [newline] @ ''big  world'' @ [newline])) \<and>
   \<not> newline_at_edge (string_processing (''Hello-'' @ [newline] @ ''big  world'' @ [newline])) \<and>
   length (filter (isolated_newline (''Hello-'' @ [newline] @ ''big  world'' @ [newline]))
     [0..<length (''Hello-'' @ [newline] @ ''big  world'' @ [newline])]) = 1 \<and>
   newlines_separated (kept_chars (''end-'' @ [newline])) \<and>
   \<not> newline_at_edge (string_processing (''end-'' @ [newline])) \<and>
   newlines_separated (kept_chars (''hello '' @ [newline] @ ''world'')) \<and>
   \<not> newline_at_edge (string_processing (''hello '' @ [newline] @ ''world'')) \<and>
   newlines_separated (kept_chars (''a'' @ [newline] @ ''  '')) \<and>
   \<not> newline_at_edge (string_processing (''a'' @ [newline] @ ''  '')) \<and>
   \<not> newlines_separated (kept_chars (''a'' @ [newline] @ ''#'' @ [newline] @ ''b'')) \<and>
   adjacent_newlines (string_processing (''a'' @ [newline] @ ''#'' @ [newline] @ ''b''))"
proof -
  have good: "newlines_separated (kept_chars (''Hello-'' @ [newline] @ ''big  world'' @ [newline]))"
    "newlines_separated (kept_chars (''end-'' @ [newline]))"
    "newlines_separated (kept_chars (''hello '' @ [newline] @ ''world''))"
    "newlines_separated (kept_chars (''a'' @ [newline] @ ''  ''))"
    by code_simp+
  have out: "string_processing (''Hello-'' @ [newline] @ ''big  world'' @ [newline])
     = ''Hello'' @ [newline] @ ''big world''"
    by code_simp
  have one: "length (filter (\<lambda>c. c = newline) (''Hello'' @ [newline] @ ''big world'')) = 1"
    by (simp add: newline_def)
  have bad: "\<not> newlines_separated (kept_chars (''a'' @ [newline] @ ''#'' @ [newline] @ ''b''))"
    by code_simp
  have edge: "\<not> newline_at_edge (string_processing (''a'' @ [newline] @ ''#'' @ [newline] @ ''b''))"
    by code_simp
  from string_processing_newlines [of "''Hello-'' @ [newline] @ ''big  world'' @ [newline]"]
    string_processing_newlines [of "''end-'' @ [newline]"]
    string_processing_newlines [of "''hello '' @ [newline] @ ''world''"]
    string_processing_newlines [of "''a'' @ [newline] @ ''  ''"]
    string_processing_newlines [of "''a'' @ [newline] @ ''#'' @ [newline] @ ''b''"]
    good out one bad edge
  show ?thesis by (simp only: simp_thms)
qed

text \<open>
  Claim C5 as stated (for every input) fails when a character that is dropped stands
  next to a newline: \<^verbatim>\<open>"a\n#\nb"\<close> gives \<^verbatim>\<open>"a\n\nb"\<close>, \<^verbatim>\<open>"#\nb"\<close> gives \<^verbatim>\<open>"\nb"\<close>, and
  \<^verbatim>\<open>"a\n "\<close> gives \<^verbatim>\<open>"a\n"\<close>.
\<close>

theorem string_processing_newlines_counterexample:
  "string_processing (''a'' @ [newline] @ ''#'' @ [newline] @ ''b'') = ''a'' @ [newline, newline] @ ''b'' \<and>
   adjacent_newlines (string_processing (''a'' @ [newline] @ ''#'' @ [newline] @ ''b'')) \<and>
   string_processing (''#'' @ [newline] @ ''b'') = [newline] @ ''b'' \<and>
   string_processing (''a'' @ [newline] @ '' '') = ''a'' @ [newline] \<and>
   newline_at_edge (string_processing (''#'' @ [newline] @ ''b'')) \<and>
   newline_at_edge (string_processing (''a'' @ [newline] @ '' ''))"
  by code_simp

subsection \<open>The word deduplicator\<close>

lemmas normalize_result_eval =
  normalize_result_def split_words.simps find_char.simps substr_def size_sub_def
  append_all_def Let_def

text \<open>
  Claim C6 (the word deduplicator returns \<^verbatim>\<open>"cat dog bird"\<close> for \<^verbatim>\<open>"cat dog cat bird dog"\<close>)
  fails: the kept words are joined as \<^verbatim>\<open>"cat dog bird "\<close> and
  \<^verbatim>\<open>str.substr(0, str.length() - 2)\<close> then cuts two characters, the separator and the last
  letter. The result is the same whether the text arrives as one piece or word by word.
\<close>

theorem normalize_result_cuts_last_letter:
  "normalize_result [''cat dog cat bird dog''] = Inr ''cat dog bir'' \<and>
   normalize_result [''cat'', ''dog'', ''cat'', ''bird'', ''dog''] = Inr ''cat dog bir''"
  by (simp add: normalize_result_eval)

text \<open>
  Claim C7 (an empty input gives an empty result) fails: for no pieces at all, and for
  one empty piece, the only word found is the empty one, the joined string is one space,
  and \<^verbatim>\<open>str.length() - 2\<close> wraps around, so \<^verbatim>\<open>substr\<close> returns that space. A text of
  separators only gives the same single space.
\<close>

theorem normalize_result_empty_input:
  "normalize_result [] = Inr '' '' \<and>
   normalize_result [[]] = Inr '' '' \<and>
   normalize_result [''   ''] = Inr '' ''"
  by (simp add: normalize_result_eval)

text \<open>
  The word deduplicator never throws: every \<^verbatim>\<open>substr\<close> call starts inside the string, also
  for a text without pieces, with empty pieces or of separators only.
\<close>

lemma split_words_returns:
  "start \<le> length str \<Longrightarrow> \<exists>ws. split_words str start words = Inr ws"
proof (induction str start words rule: split_words.induct)
  case (1 str start words)
  define e where "e = (case find_char str (CHR '' '') start of None \<Rightarrow> length str | Some e \<Rightarrow> e)"
  define tmp where "tmp = take (min (size_sub e start) (length str - start)) (drop start str)"
  define ws where "ws = (if tmp \<in> set words then words else words @ [tmp])"
  have sub: "substr str start (size_sub e start) = Inr tmp"
    using "1.prems" by (simp add: substr_def tmp_def)
  show ?case
  proof (cases "e + 1 < length str")
    case True
    from "1.IH" [OF e_def sub ws_def refl True] True
    obtain r where "split_words str (e + 1) ws = Inr r" by auto
    with True sub show ?thesis
      by (subst split_words.simps) (simp add: Let_def e_def [symmetric] ws_def [symmetric])
  next
    case False
    with sub show ?thesis
      by (subst split_words.simps) (simp add: Let_def e_def [symmetric])
  qed
qed

theorem normalize_result_returns: "\<exists>str. normalize_result text = Inr str"
proof -
  obtain ws where "split_words (append_all text) 0 [] = Inr ws"
    using split_words_returns [of 0 "append_all text" "[]"] by auto
  then show ?thesis
    by (simp add: normalize_result_def substr_def Let_def)
qed

section \<open>Properties of the region materializer\<close>

lemma foldl_sum_area:
  "foldl (\<lambda>sum_area r. sum_area + area r) a boxes = a + sum_list (map area boxes)"
  by (induction boxes arbitrary: a) simp_all

lemma int_div_2_nonneg: "0 \<le> a \<Longrightarrow> int_div a 2 = a div 2"
  by (simp add: int_div_def sgn_if)

text \<open>
  Claim C9, as the code has it: the sum of the boxes' areas is compared with the image
  area halved by integer division, which rounds down. For a source image of \<open>cols\<close> by
  \<open>rows\<close> pixels the whole-image branch (one grayscale image, no threshold) is taken
  exactly when twice the sum plus one reaches the image area, that is, when the sum is
  at least half the area rounded down; this includes the sum being exactly half.
  Otherwise every box gives one cropped, grayscaled and Otsu-thresholded image.
\<close>

theorem create_text_areas_coverage:
  "(int cols * int rows \<le> 2 * sum_list (map area boxes) + 1 \<longrightarrow>
      create_text_areas (SourceImage cols rows) boxes = [CvtColorGray (SourceImage cols rows)]) \<and>
   (2 * sum_list (map area boxes) + 1 < int cols * int rows \<longrightarrow>
      create_text_areas (SourceImage cols rows) boxes
        = map (\<lambda>r. ThresholdOtsu (CvtColorGray (Roi (SourceImage cols rows) r))) boxes)"
proof -
  have half: "int_div (size_area (SourceImage cols rows)) 2 = (int cols * int rows) div 2"
    by (simp add: int_div_2_nonneg)
  have "(int cols * int rows) div 2 \<le> sum_list (map area boxes)
      \<longleftrightarrow> int cols * int rows \<le> 2 * sum_list (map area boxes) + 1"
    by linarith
  then show ?thesis
    by (simp add: create_text_areas_def foldl_sum_area half del: size_area.simps)
qed

text \<open>
  The theorem at a 4 x 2 image with one 2 x 2 box (the sum 4 is exactly half of 8: whole
  image) and at a 4 x 4 image with the same box (4 is below 8: one region for the box).
\<close>

theorem create_text_areas_coverage_witness:
  "int 4 * int 2 \<le> 2 * sum_list (map area [Rect 0 0 2 2]) + 1 \<and>
   create_text_areas (SourceImage 4 2) [Rect 0 0 2 2] = [CvtColorGray (SourceImage 4 2)] \<and>
   2 * sum_list (map area [Rect 0 0 2 2]) + 1 < int 4 * int 4 \<and>
   create_text_areas (SourceImage 4 4) [Rect 0 0 2 2]
     = [ThresholdOtsu (CvtColorGray (Roi (SourceImage 4 4) (Rect 0 0 2 2)))]"
  using create_text_areas_coverage [of 4 2 "[Rect 0 0 2 2]"]
    create_text_areas_coverage [of 4 4 "[Rect 0 0 2 2]"]
  by (simp add: area_def Rect_def)

text \<open>
  Claim C9 as stated (whole image when the sum is at least half the image area, one
  region per box otherwise) fails for an image of odd area: for a 3 x 3 image and the
  single, deduplicated box \<open>Rect 0 0 2 2\<close> the sum 4 is below half of 9, yet
  \<^verbatim>\<open>image.size().area() / 2\<close> is 4 and the whole-image branch is taken.
\<close>

theorem create_text_areas_half_counterexample:
  "remove_dup [Rect 0 0 2 2] = [Rect 0 0 2 2] \<and>
   2 * sum_list (map area [Rect 0 0 2 2]) < size_area (SourceImage 3 3) \<and>
   create_text_areas (SourceImage 3 3) [Rect 0 0 2 2] = [CvtColorGray (SourceImage 3 3)] \<and>
   create_text_areas (SourceImage 3 3) [Rect 0 0 2 2]
     \<noteq> map (\<lambda>r. ThresholdOtsu (CvtColorGray (Roi (SourceImage 3 3) r))) [Rect 0 0 2 2]"
  by code_simp

section \<open>Properties of the entry points\<close>

text \<open>
  Claim C10: \<^verbatim>\<open>get_text\<close> throws \<^verbatim>\<open>RecException\<close> for an empty file name, for a file that
  decodes to an empty image and for an empty image, in each case before any core stage
  is entered; when the detector returns no boxes, \<^verbatim>\<open>get_text\<close> returns the empty string
  (after the detection stage only), from an image as well as from a file.
\<close>

theorem get_text_input_errors:
  "(file = [] \<longrightarrow>
      get_text_file env file = ([], Inl (RecException ''bad file name''))) \<and>
   (file \<noteq> [] \<and> mat_empty (imread env file) \<longrightarrow>
      get_text_file env file = ([], Inl (RecException ''failed to load image''))) \<and>
   (mat_empty img \<longrightarrow>
      get_text env img = ([], Inl (RecException ''failed to load image''))) \<and>
   (\<not> mat_empty img \<and> find_text_rects env img = Inr [] \<longrightarrow>
      get_text env img = ([Detection], Inr [])) \<and>
   (file \<noteq> [] \<and> \<not> mat_empty (imread env file) \<and>
    find_text_rects env (imread env file) = Inr [] \<longrightarrow>
      get_text_file env file = ([Detection], Inr []))"
  by (simp add: get_text_file_def get_text_def)

text \<open>
  The theorem at the empty file name, at a file that does not decode, at the empty
  image, and at a 2 x 2 image (given directly and read from a file) in which the detector
  finds no boxes.
\<close>

theorem get_text_input_errors_witness:
  "get_text_file blank_collaborators [] = ([], Inl (RecException ''bad file name'')) \<and>
   ''bad.png'' \<noteq> [] \<and> mat_empty (imread blank_collaborators ''bad.png'') \<and>
   get_text_file blank_collaborators ''bad.png''
     = ([], Inl (RecException ''failed to load image'')) \<and>
   mat_empty (SourceImage 0 0) \<and>
   get_text blank_collaborators (SourceImage 0 0)
     = ([], Inl (RecException ''failed to load image'')) \<and>
   \<not> mat_empty (SourceImage 2 2) \<and> find_text_rects blank_collaborators (SourceImage 2 2) = Inr [] \<and>
   get_text blank_collaborators (SourceImage 2 2) = ([Detection], Inr []) \<and>
   ''a.png'' \<noteq> [] \<and> \<not> mat_empty (imread blank_collaborators ''a.png'') \<and>
   find_text_rects blank_collaborators (imread blank_collaborators ''a.png'') = Inr [] \<and>
   get_text_file blank_collaborators ''a.png'' = ([Detection], Inr [])"
  using get_text_input_errors [of "[]" blank_collaborators "SourceImage 0 0"]
    get_text_input_errors [of "''bad.png''" blank_collaborators "SourceImage 2 2"]
    get_text_input_errors [of "''a.png''" blank_collaborators "SourceImage 2 2"]
  by (simp add: blank_collaborators_def mat_empty_def find_text_rects_def)

end
